theory Spec2Isabelle
  imports Main "HOL-Library.AList" "HOL-Library.Sublist"
begin

section \<open>Data model of the crawler (simple\_crawler.py)\<close>

text \<open>
  URLs, page texts and patterns are Python strings. The exceptions that the
  handlers of the source distinguish are \<open>ET.ParseError\<close> and every other
  \<open>Exception\<close> (\<open>RecursionError\<close>, \<open>ValueError\<close>, \<open>re.error\<close> and the errors of the
  network are of the second kind).
\<close>

type_synonym url = string

datatype exn = ParseError | Exception string

text \<open>
  The instance attributes of \<open>SimpleCrawler\<close> that decide a result. The clock fields
  (\<open>crawl_delay\<close>, \<open>last_request_time\<close>) only delay requests and are left out;
  \<open>'r\<close> is the type of the cached robot parsers.
\<close>

record 'r crawler =
  respect_robots_txt :: bool
  max_pages :: int
  max_depth :: int
  robot_parsers :: "string \<rightharpoonup> 'r"

text \<open>\<open>SimpleCrawler.__init__\<close> with its default arguments.\<close>

definition init :: "'r crawler" where
  "init = \<lparr>respect_robots_txt = True, max_pages = 100, max_depth = 3,
            robot_parsers = Map.empty\<rparr>"

section \<open>External collaborators\<close>

text \<open>
  An element of an \<open>xml.etree.ElementTree\<close> document: its tag (with the namespace in
  braces), its text and its children in document order.
\<close>

datatype xml = Element (tag: string) (text_of: "string option") (children: "xml list")

text \<open>
  What \<open>urllib.request.urlopen\<close> does for a robots.txt URL: it raises \<open>HTTPError\<close> with
  a status code, raises another exception (\<open>URLError\<close>, a timeout), or returns a
  response with a body.
\<close>

datatype urlopen_result = HTTPError int | Raises exn | Opened string

text \<open>
  The libraries and the network the crawler calls.
  \<^item> \<open>urljoin\<close>, \<open>urlparse_scheme\<close>, \<open>urlparse_netloc\<close>, \<open>urlparse_hostname\<close> and
    \<open>re_search\<close> are the values of \<open>urljoin(base, url)\<close>, of the attributes \<open>scheme\<close>,
    \<open>netloc\<close> and \<open>hostname\<close> of \<open>urlparse(url)\<close>, and of \<open>re.search(pattern, url)\<close> as
    a truth value, when these calls return. \<open>urljoin_raises\<close>, \<open>urlparse_raises\<close> and
    \<open>re_search_raises\<close> give the exception when the call raises instead (a
    \<open>ValueError\<close> for a malformed URL, a \<open>re.error\<close> for a malformed pattern).
  \<^item> \<open>requests_head url\<close> is the status code of \<open>requests.head(url, timeout=10)\<close>;
  \<^item> \<open>requests_get url\<close> is \<open>(status_code, text)\<close> of \<open>requests.get(url, timeout=30)\<close>;
  \<^item> \<open>fromstring\<close> is \<open>ET.fromstring\<close>;
  \<^item> \<open>robots_urlopen url\<close> is \<open>urllib.request.urlopen(url)\<close> for a robots.txt URL,
    \<open>robots_parse raw\<close> the rules that \<open>parse(raw.decode("utf-8").splitlines())\<close>
    stores (or the exception of the decoding), and \<open>robots_allowance rules agent url\<close>
    the answer of the stored rules for an agent and a URL;
  \<^item> \<open>find_all_a_href html\<close> lists \<open>a_tag["href"]\<close> for the anchors of
    \<open>BeautifulSoup(html, "html.parser").find_all("a", href=True)\<close>.
  Every operation that reaches the network or parses a fetched document either
  raises (\<open>Inl\<close>) or returns (\<open>Inr\<close>).
\<close>

record 'e env =
  urljoin :: "string \<Rightarrow> string \<Rightarrow> string"
  urljoin_raises :: "string \<Rightarrow> string \<Rightarrow> exn option"
  urlparse_scheme :: "string \<Rightarrow> string"
  urlparse_netloc :: "string \<Rightarrow> string"
  urlparse_hostname :: "string \<Rightarrow> string option"
  urlparse_raises :: "string \<Rightarrow> exn option"
  re_search :: "string \<Rightarrow> string \<Rightarrow> bool"
  re_search_raises :: "string \<Rightarrow> string \<Rightarrow> exn option"
  requests_head :: "url \<Rightarrow> exn + int"
  requests_get :: "url \<Rightarrow> exn + int \<times> string"
  fromstring :: "string \<Rightarrow> exn + xml"
  robots_urlopen :: "url \<Rightarrow> urlopen_result"
  robots_parse :: "string \<Rightarrow> exn + 'e"
  robots_allowance :: "'e \<Rightarrow> string \<Rightarrow> url \<Rightarrow> exn + bool"
  find_all_a_href :: "string \<Rightarrow> exn + string list"

section \<open>The standard robots parser (urllib.robotparser)\<close>

text \<open>
  \<open>RobotFileParser\<close> is not part of the repository; this is the class of CPython's
  standard library, which the crawler instantiates. Its state: the two flags, whether
  \<open>last_checked\<close> is non-zero (it is set when \<open>parse\<close> starts), and the parsed rules.
  \<^verbatim>\<open>
  def read(self):
      try:
          f = urllib.request.urlopen(self.url)
      except urllib.error.HTTPError as err:
          if err.code in (401, 403):
              self.disallow_all = True
          elif err.code >= 400 and err.code < 500:
              self.allow_all = True
      else:
          raw = f.read()
          self.parse(raw.decode("utf-8").splitlines())

  def can_fetch(self, useragent, url):
      if self.disallow_all:
          return False
      if self.allow_all:
          return True
      # Until the robots.txt file has been read or found not
      # to exist, we must assume that no url is allowable.
      if not self.last_checked:
          return False
      ...  # the first entry that applies to the agent decides; no entry: True
  \<close>
\<close>

record 'e robot_file_parser =
  disallow_all :: bool
  allow_all :: bool
  last_checked :: bool
  rules :: "'e option"

definition RobotFileParser_init :: "'e robot_file_parser" where
  "RobotFileParser_init = \<lparr>disallow_all = False, allow_all = False, last_checked = False, rules = None\<rparr>"

text \<open>\<open>set_url(url)\<close> followed by \<open>read()\<close>; \<open>set_url\<close> calls \<open>urlparse(url)\<close>.\<close>

definition RobotFileParser_read :: "'e env \<Rightarrow> 'e robot_file_parser \<Rightarrow> url \<Rightarrow> exn + 'e robot_file_parser" where
  "RobotFileParser_read env robot_parser robots_url =
     (case urlparse_raises env robots_url of
        Some e \<Rightarrow> Inl e
      | None \<Rightarrow>
          (case robots_urlopen env robots_url of
             HTTPError code \<Rightarrow>
               Inr (if code = 401 \<or> code = 403 then robot_parser\<lparr>disallow_all := True\<rparr>
                    else if code \<ge> 400 \<and> code < 500 then robot_parser\<lparr>allow_all := True\<rparr>
                    else robot_parser)
           | Raises e \<Rightarrow> Inl e
           | Opened raw \<Rightarrow>
               (case robots_parse env raw of
                  Inl e \<Rightarrow> Inl e
                | Inr parsed \<Rightarrow> Inr (robot_parser\<lparr>last_checked := True, rules := Some parsed\<rparr>))))"

definition RobotFileParser_can_fetch :: "'e env \<Rightarrow> 'e robot_file_parser \<Rightarrow> string \<Rightarrow> url \<Rightarrow> exn + bool" where
  "RobotFileParser_can_fetch env robot_parser useragent url =
     (if disallow_all robot_parser then Inr False
      else if allow_all robot_parser then Inr True
      else if \<not> last_checked robot_parser then Inr False
      else case rules robot_parser of
             None \<Rightarrow> Inr True
           | Some parsed \<Rightarrow> robots_allowance env parsed useragent url)"

section \<open>Politeness: \_get\_robot\_parser and \_can\_fetch\<close>

text \<open>
  Lines 54-61: both the scheme and the netloc are non-empty; an exception of
  \<open>urlparse\<close> is caught and gives \<open>False\<close>.
\<close>

definition is_valid_url :: "'e env \<Rightarrow> url \<Rightarrow> bool" where
  "is_valid_url env url \<longleftrightarrow>
     (case urlparse_raises env url of
        Some e \<Rightarrow> False
      | None \<Rightarrow> urlparse_scheme env url \<noteq> [] \<and> urlparse_netloc env url \<noteq> [])"

text \<open>
  Lines 70-91. The result is the parser, \<open>None\<close>, or the exception of the calls
  outside the \<open>try\<close> block (\<open>urlparse\<close> in line 75, \<open>urljoin\<close> in line 81), and the
  crawler with its cache updated. A parser is cached whenever \<open>read()\<close> returns.
\<close>

definition get_robot_parser ::
  "'e env \<Rightarrow> 'e robot_file_parser crawler \<Rightarrow> url \<Rightarrow>
   (exn + 'e robot_file_parser option) \<times> 'e robot_file_parser crawler"
where
  "get_robot_parser env self base_url =
     (if \<not> respect_robots_txt self then (Inr None, self)
      else
        case urlparse_raises env base_url of
          Some e \<Rightarrow> (Inl e, self)
        | None \<Rightarrow>
            let netloc = urlparse_netloc env base_url
            in (case robot_parsers self netloc of
                  Some robot_parser \<Rightarrow> (Inr (Some robot_parser), self)
                | None \<Rightarrow>
                    (case urljoin_raises env base_url ''/robots.txt'' of
                       Some e \<Rightarrow> (Inl e, self)
                     | None \<Rightarrow>
                         let robots_url = urljoin env base_url ''/robots.txt''
                         in (case RobotFileParser_read env RobotFileParser_init robots_url of
                               Inl e \<Rightarrow> (Inr None, self)
                             | Inr robot_parser \<Rightarrow>
                                 (Inr (Some robot_parser),
                                  self\<lparr>robot_parsers :=
                                         (robot_parsers self)(netloc \<mapsto> robot_parser)\<rparr>)))))"

text \<open>
  Lines 93-105. A \<open>RobotFileParser\<close> object is always truthy. Every exception inside
  the \<open>try\<close> block gives \<open>True\<close>.
\<close>

definition can_fetch ::
  "'e env \<Rightarrow> 'e robot_file_parser crawler \<Rightarrow> url \<Rightarrow> bool \<times> 'e robot_file_parser crawler"
where
  "can_fetch env self url =
     (if \<not> respect_robots_txt self then (True, self)
      else
        case get_robot_parser env self url of
          (Inl e, self') \<Rightarrow> (True, self')
        | (Inr (Some robot_parser), self') \<Rightarrow>
            (case RobotFileParser_can_fetch env robot_parser ''*'' url of
               Inl e \<Rightarrow> (True, self')
             | Inr allowed \<Rightarrow> (allowed, self'))
        | (Inr None, self') \<Rightarrow> (True, self'))"

section \<open>Link extraction: extract\_links\<close>

text \<open>
  \<open>if url_patterns: if not any(re.search(pattern, link) ...): continue\<close>.
  \<open>None\<close> and the empty list are both falsy, so neither filters anything.
\<close>

definition pattern_ok :: "(string \<Rightarrow> string \<Rightarrow> bool) \<Rightarrow> string list option \<Rightarrow> url \<Rightarrow> bool" where
  "pattern_ok search url_patterns link =
     (case url_patterns of
        None \<Rightarrow> True
      | Some ps \<Rightarrow> ps = [] \<or> list_ex (\<lambda>pattern. search pattern link) ps)"

text \<open>
  The same test inside the \<open>try\<close> block of \<open>extract_links\<close> (lines 151-153), where an
  exception of \<open>re.search\<close> matters: \<open>any\<close> tries the patterns in order and stops at
  the first that matches or raises.
\<close>

primrec any_search :: "'e env \<Rightarrow> string list \<Rightarrow> url \<Rightarrow> exn + bool" where
  "any_search env [] full_url = Inr False"
| "any_search env (pattern # patterns) full_url =
     (case re_search_raises env pattern full_url of
        Some e \<Rightarrow> Inl e
      | None \<Rightarrow>
          if re_search env pattern full_url then Inr True
          else any_search env patterns full_url)"

definition patterns_match :: "'e env \<Rightarrow> string list option \<Rightarrow> url \<Rightarrow> exn + bool" where
  "patterns_match env url_patterns full_url =
     (case url_patterns of
        None \<Rightarrow> Inr True
      | Some ps \<Rightarrow> if ps = [] then Inr True else any_search env ps full_url)"

text \<open>
  Lines 156-160: the test on the two netlocs; \<open>suffix\<close> is \<open>str.endswith\<close>.
\<close>

definition same_domain :: "string \<Rightarrow> string \<Rightarrow> bool" where
  "same_domain base_domain url_domain \<longleftrightarrow>
     url_domain = base_domain \<or> suffix (''.'' @ base_domain) url_domain"

text \<open>
  Lines 144-165: the body of the loop for one anchor, given the list \<open>links\<close> so far
  and the crawler (whose robots cache \<open>_can_fetch\<close> may fill). The result is the
  exception that leaves the loop, or the list after this anchor. \<open>and\<close> is
  short-circuit: \<open>_can_fetch\<close> is called only for a valid URL.
\<close>

definition anchor_step ::
  "'e env \<Rightarrow> string \<Rightarrow> string list option \<Rightarrow> string \<Rightarrow> url list \<Rightarrow>
   'e robot_file_parser crawler \<Rightarrow> (exn + url list) \<times> 'e robot_file_parser crawler"
where
  "anchor_step env base_url url_patterns href links self =
     (if base_url \<noteq> [] then
        case urljoin_raises env base_url href of
          Some e \<Rightarrow> (Inl e, self)
        | None \<Rightarrow>
            let full_url = urljoin env base_url href
            in (case patterns_match env url_patterns full_url of
                  Inl e \<Rightarrow> (Inl e, self)
                | Inr matched \<Rightarrow>
                    if \<not> matched then (Inr links, self)
                    else
                      (case urlparse_raises env base_url of
                         Some e \<Rightarrow> (Inl e, self)
                       | None \<Rightarrow>
                           (case urlparse_raises env full_url of
                              Some e \<Rightarrow> (Inl e, self)
                            | None \<Rightarrow>
                                let base_domain = urlparse_netloc env base_url;
                                    url_domain = urlparse_netloc env full_url
                                in if same_domain base_domain url_domain then
                                     if is_valid_url env full_url then
                                       (case can_fetch env self full_url of
                                          (allowed, self') \<Rightarrow>
                                            if allowed then (Inr (links @ [full_url]), self')
                                            else (Inr links, self'))
                                     else (Inr links, self)
                                   else (Inr links, self))))
      else if is_valid_url env href then
        (case can_fetch env self href of
           (allowed, self') \<Rightarrow>
             if allowed then (Inr (links @ [href]), self') else (Inr links, self'))
      else (Inr links, self))"

text \<open>Lines 143-165: the loop over the anchors; an exception ends it.\<close>

primrec links_loop ::
  "'e env \<Rightarrow> string \<Rightarrow> string list option \<Rightarrow> string list \<Rightarrow>
   (exn + url list) \<times> 'e robot_file_parser crawler \<Rightarrow>
   (exn + url list) \<times> 'e robot_file_parser crawler"
where
  "links_loop env base_url url_patterns [] acc = acc"
| "links_loop env base_url url_patterns (href # hrefs) acc =
     (case acc of
        (Inl e, self) \<Rightarrow> (Inl e, self)
      | (Inr links, self) \<Rightarrow>
          links_loop env base_url url_patterns hrefs
            (anchor_step env base_url url_patterns href links self))"


section \<open>Sitemap resolution: parse\_sitemap\<close>

definition ns :: string where
  "ns = ''{http://www.sitemaps.org/schemas/sitemap/0.9}''"

text \<open>
  \<open>root.findall(".//TAG")\<close>: the elements below the root with that tag, in document
  order. \<open>elem.find("TAG")\<close>: the first child with that tag.
\<close>

fun descendants :: "xml \<Rightarrow> xml list" where
  "descendants (Element t x cs) = concat (map (\<lambda>c. c # descendants c) cs)"

definition findall :: "string \<Rightarrow> xml \<Rightarrow> xml list" where
  "findall tg root = filter (\<lambda>e. tag e = tg) (descendants root)"

definition find_child :: "string \<Rightarrow> xml \<Rightarrow> xml option" where
  "find_child tg e = List.find (\<lambda>c. tag c = tg) (children e)"

text \<open>
  \<open>loc = e.find(ns + "loc")\<close> followed by \<open>if loc is not None and loc.text\<close>: the text
  of the entry when the test passes.
\<close>

definition loc_text :: "xml \<Rightarrow> string option" where
  "loc_text e =
     (case find_child (ns @ ''loc'') e of
        None \<Rightarrow> None
      | Some loc \<Rightarrow>
          (case text_of loc of
             None \<Rightarrow> None
           | Some t \<Rightarrow> if t = [] then None else Some t))"

text \<open>Lines 220-223: the loop of a regular sitemap, \<open>urls.append(loc.text)\<close>.\<close>

primrec collect_locs :: "xml list \<Rightarrow> string list \<Rightarrow> string list" where
  "collect_locs [] urls = urls"
| "collect_locs (e # es) urls =
     collect_locs es (case loc_text e of None \<Rightarrow> urls | Some t \<Rightarrow> urls @ [t])"

text \<open>
  Lines 205-210: the loop of a sitemap index, \<open>urls.extend(self.parse_sitemap(loc.text))\<close>.
  \<open>self_call\<close> is the recursive call.
\<close>

primrec resolve_children :: "(url \<Rightarrow> url list) \<Rightarrow> xml list \<Rightarrow> url list \<Rightarrow> url list" where
  "resolve_children self_call [] urls = urls"
| "resolve_children self_call (e # es) urls =
     (case loc_text e of
        None \<Rightarrow> resolve_children self_call es urls
      | Some t \<Rightarrow> resolve_children self_call es (urls @ self_call t))"

text \<open>
  Lines 187-226: the body of the \<open>try\<close> block. \<open>sublist\<close> is the substring test
  \<open>"<sitemapindex" in response.text\<close>.
\<close>

definition parse_sitemap_try :: "'e env \<Rightarrow> (url \<Rightarrow> url list) \<Rightarrow> url \<Rightarrow> exn + url list" where
  "parse_sitemap_try env self_call sitemap_url =
     (case requests_get env sitemap_url of
        Inl e \<Rightarrow> Inl e
      | Inr (status_code, text) \<Rightarrow>
          if status_code \<noteq> 200 then Inr []
          else if sublist ''<sitemapindex'' text then
            (case fromstring env text of
               Inl e \<Rightarrow> Inl e
             | Inr root \<Rightarrow>
                 Inr (resolve_children self_call (findall (ns @ ''sitemap'') root) []))
          else
            (case fromstring env text of
               Inl e \<Rightarrow> Inl e
             | Inr root \<Rightarrow> Inr (collect_locs (findall (ns @ ''url'') root) [])))"

text \<open>Lines 227-233: the two handlers; both return the empty list.\<close>

definition parse_sitemap_except :: "exn + url list \<Rightarrow> url list" where
  "parse_sitemap_except outcome =
     (case outcome of
        Inl ParseError \<Rightarrow> []
      | Inl (Exception e) \<Rightarrow> []
      | Inr urls \<Rightarrow> urls)"

text \<open>
  Lines 173-233: \<open>parse_sitemap\<close>. The source recurses with no guard of its own (a
  sitemap index may name itself); what ends the recursion is the interpreter's
  recursion limit. The first argument counts the levels of nesting that the limit
  still allows: in a call nested beyond it a \<open>RecursionError\<close> is raised inside the
  \<open>try\<close> block, and the handler of line 231 returns the empty list. So the function
  returns a list on every input.
\<close>

primrec parse_sitemap :: "'e env \<Rightarrow> nat \<Rightarrow> url \<Rightarrow> url list" where
  "parse_sitemap env 0 sitemap_url =
     parse_sitemap_except (Inl (Exception ''maximum recursion depth exceeded''))"
| "parse_sitemap env (Suc n) sitemap_url =
     parse_sitemap_except (parse_sitemap_try env (parse_sitemap env n) sitemap_url)"






section \<open>The traversal loop of crawl\_with\_depth\<close>

text \<open>
  The loop state: the deque of \<open>(url, depth)\<close> pairs, the visited set, the result
  dictionary (an association list in insertion order, keys unique) and the page
  counter. \<open>trace\<close> is a history variable that is not in the source: it records, in
  order, every \<open>queue.append\<close> (including the initial element of the deque) and every
  call of \<open>self.crawl\<close>.
\<close>

datatype event = Enqueued url int | Dispatched url

record crawl_state =
  queue :: "(url \<times> int) list"
  visited :: "url set"
  results :: "(url \<times> string) list"
  page_count :: int
  trace :: "event list"

text \<open>Lines 365-372: the \<open>for link in links\<close> loop.\<close>

primrec enqueue_links ::
  "(string \<Rightarrow> string \<Rightarrow> bool) \<Rightarrow> string list option \<Rightarrow> int \<Rightarrow> url list \<Rightarrow> crawl_state \<Rightarrow> crawl_state"
where
  "enqueue_links search url_patterns depth [] s = s"
| "enqueue_links search url_patterns depth (link # links) s =
     enqueue_links search url_patterns depth links
       (if \<not> pattern_ok search url_patterns link then s
        else if link \<notin> visited s
          then s\<lparr>queue := queue s @ [(link, depth + 1)],
                 trace := trace s @ [Enqueued link (depth + 1)]\<rparr>
          else s)"

text \<open>
  Lines 342-372: the body of the \<open>while\<close> loop after \<open>queue.popleft()\<close>. The result
  pairs the state with a flag that is \<open>True\<close> when the body ends in \<open>break\<close>.
  \<open>crawl\<close> is the outcome \<open>(content, links)\<close> of \<open>self.crawl(url)\<close>, which never
  raises (lines 245-290 catch every exception); it is given as a function of the
  URL, and the loop calls it at most once for each URL. \<open>if content\<close> is false for
  \<open>None\<close> and for the empty string.
\<close>

definition loop_body ::
  "(url \<Rightarrow> string option \<times> url list) \<Rightarrow> (string \<Rightarrow> string \<Rightarrow> bool) \<Rightarrow> int \<Rightarrow> int \<Rightarrow>
   string list option \<Rightarrow> url \<Rightarrow> int \<Rightarrow> crawl_state \<Rightarrow> bool \<times> crawl_state"
where
  "loop_body crawl search depth_budget page_budget url_patterns url depth s =
     (if url \<in> visited s \<or> depth > depth_budget then (False, s)
      else
        let s2 = s\<lparr>visited := insert url (visited s), trace := trace s @ [Dispatched url]\<rparr>
        in case crawl url of
             (None, links) \<Rightarrow> (False, s2)
           | (Some content, links) \<Rightarrow>
               if content = [] then (False, s2)
               else
                 let s3 = s2\<lparr>results := AList.update url content (results s2),
                            page_count := page_count s2 + 1\<rparr>
                 in if page_count s3 \<ge> page_budget then (True, s3)
                    else if depth < depth_budget
                      then (False, enqueue_links search url_patterns depth links s3)
                      else (False, s3))"

text \<open>
  Lines 339-372: \<open>while queue and page_count < max_pages\<close>. Every iteration either
  shortens the queue without touching the counter or increments the counter, which
  stays below the budget, so the loop terminates on every input.
\<close>

function crawl_loop ::
  "(url \<Rightarrow> string option \<times> url list) \<Rightarrow> (string \<Rightarrow> string \<Rightarrow> bool) \<Rightarrow> int \<Rightarrow> int \<Rightarrow>
   string list option \<Rightarrow> crawl_state \<Rightarrow> crawl_state"
where
  "crawl_loop crawl search depth_budget page_budget url_patterns s =
     (case queue s of
        [] \<Rightarrow> s
      | (url, depth) # rest \<Rightarrow>
          if page_count s < page_budget then
            (case loop_body crawl search depth_budget page_budget url_patterns url depth
                    (s\<lparr>queue := rest\<rparr>) of
               (True, s') \<Rightarrow> s'
             | (False, s') \<Rightarrow> crawl_loop crawl search depth_budget page_budget url_patterns s')
          else s)"
  by pat_completeness auto
termination
proof (relation "measures [\<lambda>(crawl, search, md, mp, pats, s). nat (mp - page_count s),
                            \<lambda>(crawl, search, md, mp, pats, s). length (queue s)]",
       goal_cases)
  case 1
  show ?case by simp
next
  case (2 crawl search depth_budget page_budget url_patterns s x xs url depth b s')
  have count: "page_count (enqueue_links f ps d ls t) = page_count t" for f ps d ls t
    by (induction ls arbitrary: t) auto
  from 2 have "loop_body crawl search depth_budget page_budget url_patterns url depth
                 (s\<lparr>queue := xs\<rparr>) = (False, s')"
    by simp
  then have "(page_count s' = page_count s \<and> queue s' = xs) \<or> page_count s' = page_count s + 1"
    by (auto simp: loop_body_def Let_def count split: if_splits option.splits prod.splits)
  with 2 show ?case
    by auto
qed

declare crawl_loop.simps [simp del]

section \<open>crawl\_with\_depth\<close>

text \<open>
  Lines 308-312: \<open>if not max_depth: max_depth = self.max_depth\<close>. The argument is
  \<open>None\<close> when omitted; \<open>not\<close> is also true of \<open>0\<close>.
\<close>

definition override :: "int option \<Rightarrow> int \<Rightarrow> int" where
  "override arg dflt = (case arg of None \<Rightarrow> dflt | Some v \<Rightarrow> if v = 0 then dflt else v)"

text \<open>Lines 315-317 and 338.\<close>

definition initial_state :: "url \<Rightarrow> crawl_state" where
  "initial_state start_url =
     \<lparr>queue = [(start_url, 0)], visited = {}, results = [], page_count = 0,
      trace = [Enqueued start_url 0]\<rparr>"

text \<open>Lines 331-333: \<open>for url in sitemap_urls: if url not in visited: queue.append((url, 0))\<close>.\<close>

primrec seed_queue :: "url list \<Rightarrow> crawl_state \<Rightarrow> crawl_state" where
  "seed_queue [] s = s"
| "seed_queue (url # urls) s =
     seed_queue urls
       (if url \<notin> visited s
        then s\<lparr>queue := queue s @ [(url, 0)], trace := trace s @ [Enqueued url 0]\<rparr>
        else s)"

text \<open>
  Lines 320-335: the sitemap check. An exception of \<open>requests.head\<close> is caught and
  leaves the queue as it is; \<open>parse_sitemap\<close> itself never raises. \<open>limit\<close> is the
  nesting that the recursion limit allows to \<open>parse_sitemap\<close>.
\<close>

definition check_sitemap_and_seed :: "'e env \<Rightarrow> nat \<Rightarrow> url \<Rightarrow> crawl_state \<Rightarrow> crawl_state" where
  "check_sitemap_and_seed env limit start_url s =
     (let sitemap_url = urljoin env start_url ''/sitemap.xml''
      in case requests_head env sitemap_url of
           Inl e \<Rightarrow> s
         | Inr status_code \<Rightarrow>
             if status_code = 200 then
               let sitemap_urls = parse_sitemap env limit sitemap_url
               in seed_queue sitemap_urls s
             else s)"

text \<open>
  The URLs that the sitemap check appends: those returned by \<open>parse_sitemap\<close> when
  the \<open>HEAD\<close> request answers 200, none otherwise.
\<close>

definition sitemap_seeds :: "'e env \<Rightarrow> nat \<Rightarrow> url \<Rightarrow> url list" where
  "sitemap_seeds env limit start_url =
     (case requests_head env (urljoin env start_url ''/sitemap.xml'') of
        Inl e \<Rightarrow> []
      | Inr status_code \<Rightarrow>
          if status_code = 200 then parse_sitemap env limit (urljoin env start_url ''/sitemap.xml'')
          else [])"

text \<open>
  Lines 292-375, for the calls in which \<open>urljoin(start_url, "/sitemap.xml")\<close> and the
  \<open>re.search\<close> of line 368 return (no handler surrounds them: an exception of
  either leaves \<open>crawl_with_depth\<close> without a result). \<open>crawl_with_depth_state\<close> is the
  state at the end of the loop, \<open>crawl_with_depth\<close> the dictionary returned.
\<close>

definition crawl_with_depth_state ::
  "'e env \<Rightarrow> (url \<Rightarrow> string option \<times> url list) \<Rightarrow> nat \<Rightarrow> 'e robot_file_parser crawler \<Rightarrow> url \<Rightarrow>
   int option \<Rightarrow> int option \<Rightarrow> string list option \<Rightarrow> crawl_state"
where
  "crawl_with_depth_state env crawl limit self start_url max_depth_arg max_pages_arg url_patterns =
     (let depth_budget = override max_depth_arg (max_depth self);
          page_budget = override max_pages_arg (max_pages self)
      in crawl_loop crawl (re_search env) depth_budget page_budget url_patterns
           (check_sitemap_and_seed env limit start_url (initial_state start_url)))"

definition crawl_with_depth ::
  "'e env \<Rightarrow> (url \<Rightarrow> string option \<times> url list) \<Rightarrow> nat \<Rightarrow> 'e robot_file_parser crawler \<Rightarrow> url \<Rightarrow>
   int option \<Rightarrow> int option \<Rightarrow> string list option \<Rightarrow> (url \<times> string) list"
where
  "crawl_with_depth env crawl limit self start_url max_depth_arg max_pages_arg url_patterns =
     results
       (crawl_with_depth_state env crawl limit self start_url max_depth_arg max_pages_arg
          url_patterns)"

section \<open>Reading the trace\<close>

text \<open>The URLs passed to \<open>self.crawl\<close>, and the URLs appended to the queue, in order.\<close>

fun dispatched :: "event list \<Rightarrow> url list" where
  "dispatched [] = []"
| "dispatched (Dispatched u # es) = u # dispatched es"
| "dispatched (Enqueued u d # es) = dispatched es"

fun enqueued :: "event list \<Rightarrow> url list" where
  "enqueued [] = []"
| "enqueued (Enqueued u d # es) = u # enqueued es"
| "enqueued (Dispatched u # es) = enqueued es"

text \<open>No URL is appended to the queue after it has been dispatched.\<close>

fun no_enqueue_after_dispatch :: "event list \<Rightarrow> bool" where
  "no_enqueue_after_dispatch [] \<longleftrightarrow> True"
| "no_enqueue_after_dispatch (Dispatched u # es) \<longleftrightarrow>
     u \<notin> set (enqueued es) \<and> no_enqueue_after_dispatch es"
| "no_enqueue_after_dispatch (Enqueued u d # es) \<longleftrightarrow> no_enqueue_after_dispatch es"

text \<open>
  \<open>chain_ends crawl seeds k\<close>: the URLs at the end of a chain of exactly \<open>k\<close> links that
  starts at one of the seeds, where a link of a page is any entry of the link list
  that \<open>self.crawl\<close> returns for it.
\<close>

primrec chain_ends :: "(url \<Rightarrow> string option \<times> url list) \<Rightarrow> url list \<Rightarrow> nat \<Rightarrow> url set" where
  "chain_ends crawl seeds 0 = set seeds"
| "chain_ends crawl seeds (Suc k) = (\<Union>u \<in> chain_ends crawl seeds k. set (snd (crawl u)))"

section \<open>A small site\<close>

text \<open>
  A site on one host. Its \<open>/sitemap.xml\<close> lists the page \<open>/s\<close> twice; the start page
  \<open>/\<close> links to \<open>/x\<close>, \<open>/x\<close> to \<open>/y\<close>, and both \<open>/y\<close> and \<open>/s\<close> link to \<open>/a\<close>. Besides,
  \<open>/index.xml\<close> is a sitemap index of two sitemaps with three pages each, and
  \<open>/loop.xml\<close> an index that names the first of them and itself. The site's
  robots.txt times out; \<open>site_http code\<close> is the same site answering the request
  for robots.txt with an HTTP error status.
\<close>

definition url_entry :: "string \<Rightarrow> xml" where
  "url_entry u = Element (ns @ ''url'') None [Element (ns @ ''loc'') (Some u) []]"

definition sitemap_entry :: "string \<Rightarrow> xml" where
  "sitemap_entry u = Element (ns @ ''sitemap'') None [Element (ns @ ''loc'') (Some u) []]"

definition site_urljoin :: "string \<Rightarrow> string \<Rightarrow> string" where
  "site_urljoin base rel = ''http://h'' @ rel"

definition site_get :: "url \<Rightarrow> exn + int \<times> string" where
  "site_get u =
     (if u = ''http://h/sitemap.xml'' then Inr (200, ''<urlset>0'')
      else if u = ''http://h/index.xml'' then Inr (200, ''<sitemapindex>'')
      else if u = ''http://h/loop.xml'' then Inr (200, ''<sitemapindex>loop'')
      else if u = ''http://h/1.xml'' then Inr (200, ''<urlset>1'')
      else if u = ''http://h/2.xml'' then Inr (200, ''<urlset>2'')
      else if u = ''http://h/gone.xml'' then Inr (404, [])
      else if u = ''http://h/bad.xml'' then Inr (200, ''<urlset'')
      else Inl (Exception ''timed out''))"

definition index_document :: xml where
  "index_document =
     Element (ns @ ''sitemapindex'') None
       [sitemap_entry ''http://h/1.xml'', sitemap_entry ''http://h/2.xml'']"

definition loop_document :: xml where
  "loop_document =
     Element (ns @ ''sitemapindex'') None
       [sitemap_entry ''http://h/1.xml'', sitemap_entry ''http://h/loop.xml'']"

definition site_fromstring :: "string \<Rightarrow> exn + xml" where
  "site_fromstring t =
     (if t = ''<urlset>0'' then
        Inr (Element (ns @ ''urlset'') None [url_entry ''http://h/s'', url_entry ''http://h/s''])
      else if t = ''<sitemapindex>'' then Inr index_document
      else if t = ''<sitemapindex>loop'' then Inr loop_document
      else if t = ''<urlset>1'' then
        Inr (Element (ns @ ''urlset'') None
               [url_entry ''http://h/a1'', url_entry ''http://h/a2'', url_entry ''http://h/a3''])
      else if t = ''<urlset>2'' then
        Inr (Element (ns @ ''urlset'') None
               [url_entry ''http://h/b1'', url_entry ''http://h/b2'', url_entry ''http://h/b3''])
      else Inl ParseError)"

definition site :: "unit env" where
  "site = \<lparr>urljoin = site_urljoin,
           urljoin_raises = (\<lambda>base rel. None),
           urlparse_scheme = (\<lambda>u. ''http''),
           urlparse_netloc = (\<lambda>u. ''h''),
           urlparse_hostname = (\<lambda>u. Some ''h''),
           urlparse_raises = (\<lambda>u. None),
           re_search = (\<lambda>pattern u. True),
           re_search_raises = (\<lambda>pattern u. None),
           requests_head = (\<lambda>u. Inr 200),
           requests_get = site_get,
           fromstring = site_fromstring,
           robots_urlopen = (\<lambda>u. Raises (Exception ''timed out'')),
           robots_parse = (\<lambda>raw. Inr ()),
           robots_allowance = (\<lambda>parsed agent u. Inr False),
           find_all_a_href = (\<lambda>html. Inr [])\<rparr>"

definition site_http :: "int \<Rightarrow> unit env" where
  "site_http code = site\<lparr>robots_urlopen := (\<lambda>u. HTTPError code)\<rparr>"

definition site_crawl :: "url \<Rightarrow> string option \<times> url list" where
  "site_crawl u =
     (if u = ''http://h/'' then (Some ''home'', [''http://h/x''])
      else if u = ''http://h/x'' then (Some ''x'', [''http://h/y''])
      else if u = ''http://h/y'' then (Some ''y'', [''http://h/a''])
      else if u = ''http://h/s'' then (Some ''s'', [''http://h/a''])
      else if u = ''http://h/a'' then (Some ''a'', [])
      else (None, []))"





section \<open>Facts about the traversal loop\<close>

lemma dispatched_append [simp]: "dispatched (xs @ ys) = dispatched xs @ dispatched ys"
  by (induction xs rule: dispatched.induct) auto

lemma enqueued_append [simp]: "enqueued (xs @ ys) = enqueued xs @ enqueued ys"
  by (induction xs rule: enqueued.induct) auto

lemma dispatched_map_Enqueued [simp]: "dispatched (map (\<lambda>l. Enqueued l d) ls) = []"
  by (induction ls) auto

lemma enqueued_map_Enqueued [simp]: "enqueued (map (\<lambda>l. Enqueued l d) ls) = ls"
  by (induction ls) auto

lemma no_enqueue_after_dispatch_append:
  "no_enqueue_after_dispatch (xs @ ys) \<longleftrightarrow>
     no_enqueue_after_dispatch xs \<and> no_enqueue_after_dispatch ys \<and>
     set (dispatched xs) \<inter> set (enqueued ys) = {}"
  by (induction xs rule: no_enqueue_after_dispatch.induct) auto

lemma no_enqueue_after_dispatch_map [simp]:
  "no_enqueue_after_dispatch (map (\<lambda>l. Enqueued l d) ls)"
  by (induction ls) auto

lemma enqueue_links_eq:
  "enqueue_links search pats depth links s =
     s\<lparr>queue := queue s @ map (\<lambda>l. (l, depth + 1))
                   (filter (\<lambda>l. pattern_ok search pats l \<and> l \<notin> visited s) links),
       trace := trace s @ map (\<lambda>l. Enqueued l (depth + 1))
                   (filter (\<lambda>l. pattern_ok search pats l \<and> l \<notin> visited s) links)\<rparr>"
  by (induction links arbitrary: s) auto

lemma seed_queue_eq:
  "seed_queue urls s =
     s\<lparr>queue := queue s @ map (\<lambda>u. (u, 0)) (filter (\<lambda>u. u \<notin> visited s) urls),
       trace := trace s @ map (\<lambda>u. Enqueued u 0) (filter (\<lambda>u. u \<notin> visited s) urls)\<rparr>"
  by (induction urls arbitrary: s) auto

lemma loop_body_cases:
  assumes "loop_body crawl search md mp pats url depth s = (b, s')"
  shows "(s' = s \<and> \<not> b \<and> (url \<in> visited s \<or> depth > md)) \<or>
         (url \<notin> visited s \<and> depth \<le> md \<and>
          (\<exists>new. set new \<subseteq> set (snd (crawl url)) \<and> set new \<inter> insert url (visited s) = {} \<and>
             queue s' = queue s @ map (\<lambda>l. (l, depth + 1)) new \<and>
             trace s' = trace s @ Dispatched url # map (\<lambda>l. Enqueued l (depth + 1)) new \<and>
             visited s' = insert url (visited s) \<and>
             ((results s' = results s \<and> page_count s' = page_count s \<and> new = []) \<or>
              (\<exists>content. results s' = AList.update url content (results s) \<and>
                 page_count s' = page_count s + 1))))"
proof (cases "url \<in> visited s \<or> depth > md")
  case True
  with assms show ?thesis by (auto simp: loop_body_def)
next
  case False
  let ?Q = "\<lambda>new. set new \<subseteq> set (snd (crawl url)) \<and> set new \<inter> insert url (visited s) = {} \<and>
             queue s' = queue s @ map (\<lambda>l. (l, depth + 1)) new \<and>
             trace s' = trace s @ Dispatched url # map (\<lambda>l. Enqueued l (depth + 1)) new \<and>
             visited s' = insert url (visited s) \<and>
             ((results s' = results s \<and> page_count s' = page_count s \<and> new = []) \<or>
              (\<exists>content. results s' = AList.update url content (results s) \<and>
                 page_count s' = page_count s + 1))"
  define s2 where "s2 = s\<lparr>visited := insert url (visited s), trace := trace s @ [Dispatched url]\<rparr>"
  obtain content links where c: "crawl url = (content, links)" by (cases "crawl url")
  have "\<exists>new. ?Q new"
  proof (cases "content = None \<or> content = Some []")
    case True
    with assms False c have "s' = s2"
      by (auto simp: loop_body_def s2_def Let_def)
    then have "?Q []" by (simp add: s2_def)
    then show ?thesis ..
  next
    case nonempty: False
    then obtain body where t: "content = Some body" "body \<noteq> []" by auto
    define s3 where "s3 = s2\<lparr>results := AList.update url body (results s2),
                              page_count := page_count s2 + 1\<rparr>"
    define new where "new = filter (\<lambda>l. pattern_ok search pats l \<and> l \<notin> visited s3) links"
    from assms False c t
    have "s' = s3 \<or> s' = enqueue_links search pats depth links s3"
      by (auto simp: loop_body_def s2_def s3_def Let_def split: if_splits)
    then show ?thesis
    proof
      assume "s' = s3"
      then have "?Q []" by (auto simp: s2_def s3_def)
      then show ?thesis ..
    next
      assume "s' = enqueue_links search pats depth links s3"
      then have "s' = s3\<lparr>queue := queue s3 @ map (\<lambda>l. (l, depth + 1)) new,
                         trace := trace s3 @ map (\<lambda>l. Enqueued l (depth + 1)) new\<rparr>"
        by (simp add: enqueue_links_eq new_def)
      moreover have "set new \<subseteq> set (snd (crawl url))" "set new \<inter> insert url (visited s) = {}"
        by (auto simp: new_def c s3_def s2_def)
      ultimately have "?Q new" by (auto simp: s2_def s3_def)
      then show ?thesis ..
    qed
  qed
  with False show ?thesis by simp
qed

lemma crawl_loop_invariant:
  assumes "P s"
    and step: "\<And>s url depth rest b s'. P s \<Longrightarrow> queue s = (url, depth) # rest \<Longrightarrow> page_count s < mp \<Longrightarrow>
           loop_body crawl search md mp pats url depth (s\<lparr>queue := rest\<rparr>) = (b, s') \<Longrightarrow> P s'"
  shows "P (crawl_loop crawl search md mp pats s)"
  using assms
proof (induction crawl search md mp pats s rule: crawl_loop.induct)
  case (1 crawl search md mp pats s)
  show ?case
  proof (cases "queue s")
    case Nil
    with 1 show ?thesis by (simp add: crawl_loop.simps [of _ _ _ _ _ s])
  next
    case (Cons e rest)
    obtain url depth where e: "e = (url, depth)" by (cases e)
    show ?thesis
    proof (cases "page_count s < mp")
      case False
      with 1 Cons e show ?thesis by (simp add: crawl_loop.simps [of _ _ _ _ _ s])
    next
      case True
      obtain b s' where body: "loop_body crawl search md mp pats url depth (s\<lparr>queue := rest\<rparr>) = (b, s')"
        by (cases "loop_body crawl search md mp pats url depth (s\<lparr>queue := rest\<rparr>)")
      have P': "P s'"
        using "1.prems"(2) [OF "1.prems"(1) _ True body] Cons e by simp
      show ?thesis
      proof (cases b)
        case True
        with P' body Cons e \<open>page_count s < mp\<close> show ?thesis
          by (simp add: crawl_loop.simps [of _ _ _ _ _ s])
      next
        case False
        have "P (crawl_loop crawl search md mp pats s')"
          using "1.IH" [OF Cons e [symmetric] \<open>page_count s < mp\<close> body [symmetric]] False P' "1.prems"(2)
          by blast
        with False body Cons e \<open>page_count s < mp\<close> show ?thesis
          by (simp add: crawl_loop.simps [of _ _ _ _ _ s])
      qed
    qed
  qed
qed

lemma check_sitemap_and_seed_eq:
  "check_sitemap_and_seed env limit start_url s = seed_queue (sitemap_seeds env limit start_url) s"
  by (simp add: check_sitemap_and_seed_def sitemap_seeds_def Let_def split: sum.splits)

lemma seeded_state:
  fixes env limit start_url
  defines "s0 \<equiv> check_sitemap_and_seed env limit start_url (initial_state start_url)"
    and "urls \<equiv> sitemap_seeds env limit start_url"
  shows "queue s0 = (start_url, 0) # map (\<lambda>u. (u, 0)) urls"
    and "trace s0 = Enqueued start_url 0 # map (\<lambda>u. Enqueued u 0) urls"
    and "visited s0 = {}" and "results s0 = []" and "page_count s0 = 0"
  by (simp_all add: s0_def urls_def check_sitemap_and_seed_eq seed_queue_eq initial_state_def)

section \<open>The page bound\<close>






section \<open>Dispatch and enqueue discipline\<close>

lemma dispatch_once_loop:
  assumes "distinct (dispatched (trace s))" "set (dispatched (trace s)) \<subseteq> visited s"
  shows "distinct (dispatched (trace (crawl_loop crawl search md mp pats s)))"
proof -
  let ?P = "\<lambda>s. distinct (dispatched (trace s)) \<and> set (dispatched (trace s)) \<subseteq> visited s"
  have "?P (crawl_loop crawl search md mp pats s)"
  proof (rule crawl_loop_invariant [where P = ?P])
    show "?P s" using assms by simp
  next
    fix s url depth rest b s'
    assume P: "?P s"
      and body: "loop_body crawl search md mp pats url depth (s\<lparr>queue := rest\<rparr>) = (b, s')"
    from loop_body_cases [OF body] P show "?P s'"
      by auto
  qed
  then show ?thesis by simp
qed

text \<open>
  Claim C5. In one invocation of \<open>crawl_with_depth\<close> the URLs passed to \<open>self.crawl\<close>
  are pairwise distinct: every URL string is dispatched at most once, however many
  times the sitemap and the links of other pages name it.
\<close>

theorem dispatched_at_most_once:
  "distinct (dispatched (trace (crawl_with_depth_state env crawl limit self start_url
     max_depth_arg max_pages_arg url_patterns)))"
  unfolding crawl_with_depth_state_def Let_def
  by (intro dispatch_once_loop) (simp_all add: seeded_state)

lemma no_enqueue_after_dispatch_loop:
  assumes "no_enqueue_after_dispatch (trace s)" "set (dispatched (trace s)) \<subseteq> visited s"
  shows "no_enqueue_after_dispatch (trace (crawl_loop crawl search md mp pats s))"
proof -
  let ?P = "\<lambda>s. no_enqueue_after_dispatch (trace s) \<and> set (dispatched (trace s)) \<subseteq> visited s"
  have "?P (crawl_loop crawl search md mp pats s)"
  proof (rule crawl_loop_invariant [where P = ?P])
    show "?P s" using assms by simp
  next
    fix s url depth rest b s'
    assume P: "?P s"
      and body: "loop_body crawl search md mp pats url depth (s\<lparr>queue := rest\<rparr>) = (b, s')"
    from loop_body_cases [OF body] P show "?P s'"
      by (fastforce simp: no_enqueue_after_dispatch_append)
  qed
  then show ?thesis by simp
qed

text \<open>
  Claim C2, as amended. The membership test at enqueue time is against the visited
  set, which holds the URLs already dispatched: a URL is never appended to the queue
  after it has been dispatched. (A URL that is not yet dispatched can be appended
  several times; the copies are skipped when they are dequeued.)
\<close>

theorem never_enqueued_after_dispatch:
  "no_enqueue_after_dispatch (trace (crawl_with_depth_state env crawl limit self start_url
     max_depth_arg max_pages_arg url_patterns))"
  unfolding crawl_with_depth_state_def Let_def
  by (intro no_enqueue_after_dispatch_loop) (simp_all add: seeded_state)

section \<open>The budget arguments\<close>

text \<open>
  Claim C10. A \<open>max_depth\<close> or \<open>max_pages\<close> argument of 0 is not used: the budget is
  the instance's value, and the call returns what the call without that argument
  returns. The instance values are 3 and 100 unless the constructor is given others.
\<close>

theorem zero_arguments_replaced:
  "override (Some 0) (max_depth self) = max_depth self \<and>
   override (Some 0) (max_pages self) = max_pages self \<and>
   crawl_with_depth env crawl limit self start_url (Some 0) max_pages_arg url_patterns =
     crawl_with_depth env crawl limit self start_url None max_pages_arg url_patterns \<and>
   crawl_with_depth env crawl limit self start_url max_depth_arg (Some 0) url_patterns =
     crawl_with_depth env crawl limit self start_url max_depth_arg None url_patterns \<and>
   max_depth (init :: 'r crawler) = 3 \<and> max_pages (init :: 'r crawler) = 100"
  by (simp add: override_def crawl_with_depth_def crawl_with_depth_state_def init_def)

section \<open>Order of processing\<close>

lemma crawl_loop_trace_grows:
  "\<exists>t. trace (crawl_loop crawl search md mp pats s) = trace s @ t"
proof (rule crawl_loop_invariant [where P = "\<lambda>s'. \<exists>t. trace s' = trace s @ t"])
  show "\<exists>t. trace s = trace s @ t" by simp
next
  fix s1 url depth rest b s'
  assume "\<exists>t. trace s1 = trace s @ t"
    and "loop_body crawl search md mp pats url depth (s1\<lparr>queue := rest\<rparr>) = (b, s')"
  from loop_body_cases [OF this(2)] this(1) show "\<exists>t. trace s' = trace s @ t"
    by auto
qed

lemma nothing_dispatched_below_zero:
  assumes "md < 0" "dispatched (trace s) = []" "\<forall>(u, d) \<in> set (queue s). 0 \<le> d"
  shows "dispatched (trace (crawl_loop crawl search md mp pats s)) = []"
proof -
  let ?P = "\<lambda>s. dispatched (trace s) = [] \<and> (\<forall>(u, d) \<in> set (queue s). 0 \<le> d)"
  have "?P (crawl_loop crawl search md mp pats s)"
  proof (rule crawl_loop_invariant [where P = ?P])
    show "?P s" using assms by simp
  next
    fix s url depth rest b s'
    assume P: "?P s" and q: "queue s = (url, depth) # rest"
      and body: "loop_body crawl search md mp pats url depth (s\<lparr>queue := rest\<rparr>) = (b, s')"
    from P q have "0 \<le> depth" by auto
    with loop_body_cases [OF body] \<open>md < 0\<close> have "s' = s\<lparr>queue := rest\<rparr>" by auto
    with P q show "?P s'" by auto
  qed
  then show ?thesis by simp
qed

lemma first_dispatch:
  assumes q: "queue s = (start_url, 0) # rest" and v: "visited s = {}"
    and d: "dispatched (trace s) = []" and pc: "page_count s < mp" and md: "0 \<le> md"
  shows "\<exists>t. dispatched (trace (crawl_loop crawl search md mp pats s)) = start_url # t"
proof -
  obtain b s' where body: "loop_body crawl search md mp pats start_url 0 (s\<lparr>queue := rest\<rparr>) = (b, s')"
    by (cases "loop_body crawl search md mp pats start_url 0 (s\<lparr>queue := rest\<rparr>)")
  from loop_body_cases [OF body] v md obtain t where t: "trace s' = trace s @ Dispatched start_url # t"
    by auto
  have "crawl_loop crawl search md mp pats s = s' \<or>
        crawl_loop crawl search md mp pats s = crawl_loop crawl search md mp pats s'"
    using q pc body by (cases b) (simp_all add: crawl_loop.simps [of _ _ _ _ _ s])
  moreover obtain t' where "trace (crawl_loop crawl search md mp pats s') = trace s' @ t'"
    using crawl_loop_trace_grows by blast
  ultimately show ?thesis using t d by auto
qed

text \<open>
  Claim C1, as amended. The deque is created holding \<open>(start_url, 0)\<close> and the sitemap
  URLs are appended behind it, so the first entries appended are the start URL and
  then the sitemap URLs in their order; and whenever the loop dispatches anything
  (a positive page budget and a non-negative depth budget), the start URL is the
  first URL dispatched, before every sitemap URL. Otherwise nothing is dispatched.
\<close>

theorem start_url_dispatched_first:
  "take (Suc (length (sitemap_seeds env limit start_url)))
     (enqueued (trace (crawl_with_depth_state env crawl limit self start_url
        max_depth_arg max_pages_arg url_patterns))) =
     start_url # sitemap_seeds env limit start_url \<and>
   take 1 (dispatched (trace (crawl_with_depth_state env crawl limit self start_url
        max_depth_arg max_pages_arg url_patterns))) =
     (if 0 < override max_pages_arg (max_pages self) \<and>
         0 \<le> override max_depth_arg (max_depth self)
      then [start_url] else [])"
proof -
  let ?md = "override max_depth_arg (max_depth self)" and ?mp = "override max_pages_arg (max_pages self)"
  define urls where "urls = sitemap_seeds env limit start_url"
  define s0 where "s0 = check_sitemap_and_seed env limit start_url (initial_state start_url)"
  define s where "s = crawl_with_depth_state env crawl limit self start_url
        max_depth_arg max_pages_arg url_patterns"
  have s0: "queue s0 = (start_url, 0) # map (\<lambda>u. (u, 0)) urls"
    "trace s0 = Enqueued start_url 0 # map (\<lambda>u. Enqueued u 0) urls"
    "visited s0 = {}" "page_count s0 = 0"
    unfolding s0_def urls_def by (rule seeded_state)+
  have loop: "s = crawl_loop crawl (re_search env) ?md ?mp url_patterns s0"
    by (simp add: s_def s0_def crawl_with_depth_state_def)
  obtain t where t: "trace s = trace s0 @ t"
    using crawl_loop_trace_grows loop by blast
  have enq: "take (Suc (length urls)) (enqueued (trace s)) = start_url # urls"
    using s0(2) by (simp add: t)
  have d0: "dispatched (trace s0) = []" using s0(2) by simp
  have "take 1 (dispatched (trace s)) = (if 0 < ?mp \<and> 0 \<le> ?md then [start_url] else [])"
  proof (cases "0 < ?mp")
    case False
    then have "s = s0" using s0 loop by (simp add: crawl_loop.simps [of _ _ _ _ _ s0])
    with False d0 show ?thesis by simp
  next
    case True
    show ?thesis
    proof (cases "0 \<le> ?md")
      case False
      then have "dispatched (trace s) = []"
        unfolding loop using d0 s0(1) by (intro nothing_dispatched_below_zero) auto
      with False show ?thesis by simp
    next
      case md: True
      from first_dispatch [OF s0(1) s0(3) d0 _ md, of ?mp crawl "re_search env" url_patterns] True s0(4)
      obtain r where "dispatched (trace s) = start_url # r" unfolding loop by auto
      with True md show ?thesis by simp
    qed
  qed
  with enq show ?thesis unfolding s_def urls_def by simp
qed

section \<open>The depth bound\<close>

lemma depth_bound_loop:
  assumes "\<forall>(u, d) \<in> set (queue s). 0 \<le> d \<and> u \<in> chain_ends crawl seeds (nat d)"
    and "\<forall>u \<in> fst ` set (results s). \<exists>k. int k \<le> md \<and> u \<in> chain_ends crawl seeds k"
  shows "\<forall>u \<in> fst ` set (results (crawl_loop crawl search md mp pats s)).
           \<exists>k. int k \<le> md \<and> u \<in> chain_ends crawl seeds k"
proof -
  let ?P = "\<lambda>s. (\<forall>(u, d) \<in> set (queue s). 0 \<le> d \<and> u \<in> chain_ends crawl seeds (nat d)) \<and>
                (\<forall>u \<in> fst ` set (results s). \<exists>k. int k \<le> md \<and> u \<in> chain_ends crawl seeds k)"
  have "?P (crawl_loop crawl search md mp pats s)"
  proof (rule crawl_loop_invariant [where P = ?P])
    show "?P s" using assms by simp
  next
    fix s url depth rest b s'
    assume P: "?P s" and q: "queue s = (url, depth) # rest"
      and body: "loop_body crawl search md mp pats url depth (s\<lparr>queue := rest\<rparr>) = (b, s')"
    from P q have here: "0 \<le> depth" "url \<in> chain_ends crawl seeds (nat depth)"
      and rest: "\<forall>(u, d) \<in> set rest. 0 \<le> d \<and> u \<in> chain_ends crawl seeds (nat d)"
      by auto
    from P have res: "\<forall>u \<in> fst ` set (results s). \<exists>k. int k \<le> md \<and> u \<in> chain_ends crawl seeds k"
      by simp
    have keys: "fst ` set (AList.update url content (results s)) \<subseteq> insert url (fst ` set (results s))"
      for content
      by (simp add: dom_update)
    from loop_body_cases [OF body]
    have "s' = s\<lparr>queue := rest\<rparr> \<or>
          (depth \<le> md \<and>
           (\<exists>new. set new \<subseteq> set (snd (crawl url)) \<and>
              queue s' = rest @ map (\<lambda>l. (l, depth + 1)) new \<and>
              fst ` set (results s') \<subseteq> insert url (fst ` set (results s))))"
      using keys by (elim disjE conjE exE) (simp_all, blast+)
    then show "?P s'"
    proof (elim disjE conjE exE)
      assume "s' = s\<lparr>queue := rest\<rparr>"
      with rest res show ?thesis by simp
    next
      fix new
      assume dep: "depth \<le> md" and new: "set new \<subseteq> set (snd (crawl url))"
        and q': "queue s' = rest @ map (\<lambda>l. (l, depth + 1)) new"
        and r': "fst ` set (results s') \<subseteq> insert url (fst ` set (results s))"
      have "nat (depth + 1) = Suc (nat depth)" using here(1) by simp
      then have "\<forall>l \<in> set new. l \<in> chain_ends crawl seeds (nat (depth + 1))"
        using new here(2) by auto
      with rest q' have Q: "\<forall>(u, d) \<in> set (queue s'). 0 \<le> d \<and> u \<in> chain_ends crawl seeds (nat d)"
        using here(1) by auto
      have "int (nat depth) \<le> md" using dep here(1) by simp
      with here(2) have "\<exists>k. int k \<le> md \<and> url \<in> chain_ends crawl seeds k" by blast
      with r' res have "\<forall>u \<in> fst ` set (results s'). \<exists>k. int k \<le> md \<and> u \<in> chain_ends crawl seeds k"
        by blast
      with Q show ?thesis by simp
    qed
  qed
  then show ?thesis by simp
qed

text \<open>
  Claim C4, as amended. Every key of the result is the end of a chain of at most
  \<open>d\<close> links that starts at the start URL or at a URL returned by the sitemap, where
  \<open>d\<close> is the depth budget the loop uses. So a URL that every such chain reaches only
  after more than \<open>d\<close> links is not a key of the result.
\<close>

theorem depth_bound:
  assumes key: "u \<in> fst ` set (crawl_with_depth env crawl limit self start_url max_depth_arg
                                 max_pages_arg url_patterns)"
  shows "\<exists>k. int k \<le> override max_depth_arg (max_depth self) \<and>
              u \<in> chain_ends crawl (start_url # sitemap_seeds env limit start_url) k"
proof -
  define s0 where "s0 = check_sitemap_and_seed env limit start_url (initial_state start_url)"
  have s0: "queue s0 = (start_url, 0) # map (\<lambda>u. (u, 0)) (sitemap_seeds env limit start_url)"
    "results s0 = []"
    unfolding s0_def by (rule seeded_state)+
  have "\<forall>u \<in> fst ` set (results (crawl_loop crawl (re_search env)
            (override max_depth_arg (max_depth self))
            (override max_pages_arg (max_pages self)) url_patterns s0)).
           \<exists>k. int k \<le> override max_depth_arg (max_depth self) \<and>
               u \<in> chain_ends crawl (start_url # sitemap_seeds env limit start_url) k"
    using s0 by (intro depth_bound_loop) auto
  moreover from key have "u \<in> fst ` set (results (crawl_loop crawl (re_search env)
            (override max_depth_arg (max_depth self))
            (override max_pages_arg (max_pages self)) url_patterns s0))"
    by (simp add: crawl_with_depth_def crawl_with_depth_state_def s0_def)
  ultimately show ?thesis by blast
qed

section \<open>The small site, run\<close>

lemma site_seeds: "sitemap_seeds site 2 ''http://h/'' = [''http://h/s'', ''http://h/s'']"
  by code_simp

lemma site_trace:
  "trace (crawl_with_depth_state site site_crawl 2 init ''http://h/'' (Some 1) None None) =
     [Enqueued ''http://h/'' 0, Enqueued ''http://h/s'' 0, Enqueued ''http://h/s'' 0,
      Dispatched ''http://h/'', Enqueued ''http://h/x'' 1,
      Dispatched ''http://h/s'', Enqueued ''http://h/a'' 1,
      Dispatched ''http://h/x'', Dispatched ''http://h/a'']"
  by code_simp

lemma site_results:
  "crawl_with_depth site site_crawl 2 init ''http://h/'' (Some 1) None None =
     [(''http://h/'', ''home''), (''http://h/s'', ''s''), (''http://h/x'', ''x''),
      (''http://h/a'', ''a'')]"
  by code_simp

text \<open>On the small site with depth budget 1, four pages are dispatched, each once.\<close>

theorem dispatched_at_most_once_witness:
  "dispatched (trace (crawl_with_depth_state site site_crawl 2 init ''http://h/'' (Some 1) None None)) =
     [''http://h/'', ''http://h/s'', ''http://h/x'', ''http://h/a''] \<and>
   distinct (dispatched (trace (crawl_with_depth_state site site_crawl 2 init ''http://h/''
     (Some 1) None None)))"
  using dispatched_at_most_once [of site site_crawl 2 init "''http://h/''" "Some 1" None None]
  by (simp add: site_trace)

text \<open>The same run never appends a dispatched URL.\<close>

theorem never_enqueued_after_dispatch_witness:
  "no_enqueue_after_dispatch
     (trace (crawl_with_depth_state site site_crawl 2 init ''http://h/'' (Some 1) None None))"
  using never_enqueued_after_dispatch [of site site_crawl 2 init "''http://h/''" "Some 1" None None]
  by simp

text \<open>
  The sitemap of the small site lists \<open>/s\<close> twice, and both copies are appended: the
  queue after seeding holds \<open>/s\<close> twice, so a URL can be inserted more than once.
\<close>

theorem enqueued_once_counterexample:
  "enqueued (trace (crawl_with_depth_state site site_crawl 2 init ''http://h/'' (Some 1) None None)) =
     [''http://h/'', ''http://h/s'', ''http://h/s'', ''http://h/x'', ''http://h/a''] \<and>
   \<not> distinct (enqueued (trace (crawl_with_depth_state site site_crawl 2 init ''http://h/''
     (Some 1) None None))) \<and>
   queue (check_sitemap_and_seed site 2 ''http://h/'' (initial_state ''http://h/'')) =
     [(''http://h/'', 0), (''http://h/s'', 0), (''http://h/s'', 0)]"
proof -
  have "queue (check_sitemap_and_seed site 2 ''http://h/'' (initial_state ''http://h/'')) =
     [(''http://h/'', 0), (''http://h/s'', 0), (''http://h/s'', 0)]"
    by code_simp
  then show ?thesis by (simp add: site_trace)
qed

text \<open>The same run appends the start URL first and dispatches it first.\<close>

theorem start_url_dispatched_first_witness:
  "take (Suc (length [''http://h/s'', ''http://h/s'']))
     (enqueued (trace (crawl_with_depth_state site site_crawl 2 init ''http://h/'' (Some 1) None None))) =
     [''http://h/'', ''http://h/s'', ''http://h/s''] \<and>
   take 1 (dispatched (trace (crawl_with_depth_state site site_crawl 2 init ''http://h/''
     (Some 1) None None))) = [''http://h/'']"
  using start_url_dispatched_first [of site 2 "''http://h/''" site_crawl init "Some 1" None None]
  by (simp add: site_seeds override_def init_def)

text \<open>
  The sitemap yields URLs, and still the start URL is dispatched before the sitemap
  URL \<open>/s\<close>.
\<close>

theorem sitemap_first_counterexample:
  "sitemap_seeds site 2 ''http://h/'' = [''http://h/s'', ''http://h/s''] \<and>
   dispatched (trace (crawl_with_depth_state site site_crawl 2 init ''http://h/'' (Some 1) None None)) =
     [''http://h/'', ''http://h/s'', ''http://h/x'', ''http://h/a'']"
  by (simp add: site_seeds site_trace)

text \<open>The page \<open>/a\<close> of the result is one link away from the sitemap URL \<open>/s\<close>.\<close>

theorem depth_bound_witness:
  "''http://h/a'' \<in> fst ` set (crawl_with_depth site site_crawl 2 init ''http://h/'' (Some 1) None None) \<and>
   (\<exists>k. int k \<le> override (Some 1) (max_depth (init :: unit robot_file_parser crawler)) \<and>
        ''http://h/a'' \<in> chain_ends site_crawl [''http://h/'', ''http://h/s'', ''http://h/s''] k)"
proof -
  have key: "''http://h/a'' \<in> fst ` set (crawl_with_depth site site_crawl 2 init ''http://h/''
      (Some 1) None None)"
    by (simp add: site_results)
  from depth_bound [OF key] key show ?thesis by (simp add: site_seeds)
qed

text \<open>
  With depth budget 1, \<open>/a\<close> is a key of the result and is not in the sitemap, although
  from the start URL it is reached by no chain of 0, 1 or 2 links, only by one of 3
  links: it is linked from the sitemap page \<open>/s\<close>.
\<close>

theorem depth_bound_counterexample:
  "crawl_with_depth site site_crawl 2 init ''http://h/'' (Some 1) None None =
     [(''http://h/'', ''home''), (''http://h/s'', ''s''), (''http://h/x'', ''x''),
      (''http://h/a'', ''a'')] \<and>
   sitemap_seeds site 2 ''http://h/'' = [''http://h/s'', ''http://h/s''] \<and>
   ''http://h/a'' \<notin> set [''http://h/s'', ''http://h/s''] \<and>
   ''http://h/a'' \<notin> chain_ends site_crawl [''http://h/''] 0 \<and>
   ''http://h/a'' \<notin> chain_ends site_crawl [''http://h/''] 1 \<and>
   ''http://h/a'' \<notin> chain_ends site_crawl [''http://h/''] 2 \<and>
   ''http://h/a'' \<in> chain_ends site_crawl [''http://h/''] 3"
proof -
  have "''http://h/a'' \<notin> chain_ends site_crawl [''http://h/''] 0"
    "''http://h/a'' \<notin> chain_ends site_crawl [''http://h/''] 1"
    "''http://h/a'' \<notin> chain_ends site_crawl [''http://h/''] 2"
    "''http://h/a'' \<in> chain_ends site_crawl [''http://h/''] 3"
    by code_simp+
  then show ?thesis by (simp add: site_seeds site_results)
qed

section \<open>Sitemap resolution\<close>


















text \<open>
  Claim C8. Whatever exception the body of \<open>parse_sitemap\<close> raises, the call returns
  the empty list; in particular it returns the empty list when the request raises,
  when the status code is not 200, and when the body of a 200 response does not
  parse as XML. The handlers return the empty list for every exception, also for
  the \<open>RecursionError\<close> of a call nested beyond the recursion limit.
\<close>

theorem parse_sitemap_never_raises:
  "(parse_sitemap_try env (parse_sitemap env n) url = Inl e \<longrightarrow>
      parse_sitemap env (Suc n) url = []) \<and>
   (requests_get env url = Inl e \<longrightarrow> parse_sitemap env (Suc n) url = []) \<and>
   (requests_get env url = Inr (status_code, body) \<and> status_code \<noteq> 200 \<longrightarrow>
      parse_sitemap env (Suc n) url = []) \<and>
   (requests_get env url = Inr (200, body) \<and> fromstring env body = Inl e \<longrightarrow>
      parse_sitemap env (Suc n) url = []) \<and>
   parse_sitemap_except (Inl e) = [] \<and>
   parse_sitemap env 0 url = []"
  by (cases e) (auto simp: parse_sitemap_try_def parse_sitemap_except_def)

text \<open>
  On the small site: a request that times out, a 404 response and a malformed
  document each give the empty list.
\<close>

theorem parse_sitemap_never_raises_witness:
  "parse_sitemap_try site (parse_sitemap site 0) ''http://h/nowhere.xml'' =
     Inl (Exception ''timed out'') \<and>
   requests_get site ''http://h/nowhere.xml'' = Inl (Exception ''timed out'') \<and>
   parse_sitemap site (Suc 0) ''http://h/nowhere.xml'' = [] \<and>
   requests_get site ''http://h/gone.xml'' = Inr (404, []) \<and>
   parse_sitemap site (Suc 0) ''http://h/gone.xml'' = [] \<and>
   requests_get site ''http://h/bad.xml'' = Inr (200, ''<urlset'') \<and>
   fromstring site ''<urlset'' = Inl ParseError \<and>
   parse_sitemap site (Suc 0) ''http://h/bad.xml'' = []"
proof -
  have a: "requests_get site ''http://h/nowhere.xml'' = Inl (Exception ''timed out'')"
    and b: "requests_get site ''http://h/gone.xml'' = Inr (404, [])"
    and c: "requests_get site ''http://h/bad.xml'' = Inr (200, ''<urlset'')"
    and d: "fromstring site ''<urlset'' = Inl ParseError"
    by (simp_all add: site_def site_get_def site_fromstring_def)
  have t: "parse_sitemap_try site (parse_sitemap site 0) ''http://h/nowhere.xml'' =
     Inl (Exception ''timed out'')"
    using a by (simp add: parse_sitemap_try_def)
  from parse_sitemap_never_raises [of site 0 "''http://h/nowhere.xml''" "Exception ''timed out''"] t
  have "parse_sitemap site (Suc 0) ''http://h/nowhere.xml'' = []" by blast
  moreover
  from parse_sitemap_never_raises [of site 0 "''http://h/gone.xml''" _ 404 "[]"] b
  have "parse_sitemap site (Suc 0) ''http://h/gone.xml'' = []" by simp
  moreover
  from parse_sitemap_never_raises [of site 0 "''http://h/bad.xml''" ParseError _ "''<urlset''"] c d
  have "parse_sitemap site (Suc 0) ''http://h/bad.xml'' = []" by blast
  ultimately show ?thesis using t a b c d by blast
qed

section \<open>Politeness\<close>

lemma read_raises_fail_open:
  assumes "robot_parsers self (urlparse_netloc env url) = None"
    and "RobotFileParser_read env RobotFileParser_init (urljoin env url ''/robots.txt'') = Inl e"
  shows "fst (can_fetch env self url)"
  using assms
  by (auto simp: can_fetch_def get_robot_parser_def Let_def split: option.splits)

text \<open>
  Claim C9, as amended. When the robots.txt of the URL's netloc is not cached and
  reading it raises (the request raises, for instance it times out, or the body
  cannot be decoded), \<open>_can_fetch\<close> returns \<open>True\<close>; it also returns \<open>True\<close> when the
  request is answered with an HTTP error status from 400 to 499 other than 401 and
  403. The other HTTP error statuses are not exceptions of \<open>read()\<close>: the standard
  parser absorbs them.
\<close>

theorem can_fetch_fail_open:
  assumes "robot_parsers self (urlparse_netloc env url) = None"
  shows "(robots_urlopen env (urljoin env url ''/robots.txt'') = Raises e \<longrightarrow>
            fst (can_fetch env self url)) \<and>
         (robots_urlopen env (urljoin env url ''/robots.txt'') = Opened raw \<and>
          robots_parse env raw = Inl e \<longrightarrow>
            fst (can_fetch env self url)) \<and>
         (robots_urlopen env (urljoin env url ''/robots.txt'') = HTTPError code \<and>
          400 \<le> code \<and> code < 500 \<and> code \<noteq> 401 \<and> code \<noteq> 403 \<longrightarrow>
            fst (can_fetch env self url))"
proof (intro conjI impI)
  assume "robots_urlopen env (urljoin env url ''/robots.txt'') = Raises e"
  then have "\<exists>e'. RobotFileParser_read env RobotFileParser_init
                 (urljoin env url ''/robots.txt'') = Inl e'"
    by (cases "urlparse_raises env (urljoin env url ''/robots.txt'')")
       (simp_all add: RobotFileParser_read_def)
  then obtain e' where
    "RobotFileParser_read env RobotFileParser_init (urljoin env url ''/robots.txt'') = Inl e'" ..
  with assms show "fst (can_fetch env self url)" by (rule read_raises_fail_open)
next
  assume "robots_urlopen env (urljoin env url ''/robots.txt'') = Opened raw \<and>
          robots_parse env raw = Inl e"
  then have "\<exists>e'. RobotFileParser_read env RobotFileParser_init
                 (urljoin env url ''/robots.txt'') = Inl e'"
    by (cases "urlparse_raises env (urljoin env url ''/robots.txt'')")
       (simp_all add: RobotFileParser_read_def)
  then obtain e' where
    "RobotFileParser_read env RobotFileParser_init (urljoin env url ''/robots.txt'') = Inl e'" ..
  with assms show "fst (can_fetch env self url)" by (rule read_raises_fail_open)
next
  assume h: "robots_urlopen env (urljoin env url ''/robots.txt'') = HTTPError code \<and>
          400 \<le> code \<and> code < 500 \<and> code \<noteq> 401 \<and> code \<noteq> 403"
  show "fst (can_fetch env self url)"
  proof (cases "urlparse_raises env (urljoin env url ''/robots.txt'')")
    case (Some e')
    then have "RobotFileParser_read env RobotFileParser_init (urljoin env url ''/robots.txt'') = Inl e'"
      by (simp add: RobotFileParser_read_def)
    with assms show ?thesis by (rule read_raises_fail_open)
  next
    case None
    with h have "RobotFileParser_read env RobotFileParser_init (urljoin env url ''/robots.txt'') =
        Inr (RobotFileParser_init\<lparr>allow_all := True\<rparr>)"
      by (simp add: RobotFileParser_read_def)
    with assms show ?thesis
      by (auto simp: can_fetch_def get_robot_parser_def RobotFileParser_can_fetch_def
            RobotFileParser_init_def Let_def split: option.splits)
  qed
qed

text \<open>
  The robots.txt of the small site times out, and its pages may be fetched; so they
  may when it is answered with 404, or with a body that cannot be decoded.
\<close>

theorem can_fetch_fail_open_witness:
  "robot_parsers (init :: unit robot_file_parser crawler) (urlparse_netloc site ''http://h/x'') = None \<and>
   robots_urlopen site (urljoin site ''http://h/x'' ''/robots.txt'') = Raises (Exception ''timed out'') \<and>
   fst (can_fetch site init ''http://h/x'') \<and>
   robots_urlopen (site_http 404) (urljoin (site_http 404) ''http://h/x'' ''/robots.txt'') =
     HTTPError 404 \<and>
   fst (can_fetch (site_http 404) init ''http://h/x'') \<and>
   robots_urlopen (site\<lparr>robots_urlopen := \<lambda>u. Opened ''bytes'',
                         robots_parse := \<lambda>raw. Inl (Exception ''UnicodeDecodeError'')\<rparr>)
     (urljoin site ''http://h/x'' ''/robots.txt'') = Opened ''bytes'' \<and>
   fst (can_fetch (site\<lparr>robots_urlopen := \<lambda>u. Opened ''bytes'',
                         robots_parse := \<lambda>raw. Inl (Exception ''UnicodeDecodeError'')\<rparr>)
          init ''http://h/x'')"
proof -
  let ?undecodable = "site\<lparr>robots_urlopen := \<lambda>u. Opened ''bytes'',
                         robots_parse := \<lambda>raw. Inl (Exception ''UnicodeDecodeError'')\<rparr>"
  have miss: "robot_parsers (init :: unit robot_file_parser crawler) nl = None" for nl
    by (simp add: init_def)
  have a: "robots_urlopen site (urljoin site ''http://h/x'' ''/robots.txt'') =
      Raises (Exception ''timed out'')"
    by (simp add: site_def)
  have b: "robots_urlopen (site_http 404) (urljoin (site_http 404) ''http://h/x'' ''/robots.txt'') =
      HTTPError 404"
    by (simp add: site_http_def)
  have c: "robots_urlopen ?undecodable (urljoin ?undecodable ''http://h/x'' ''/robots.txt'') = Opened ''bytes''"
    "robots_parse ?undecodable ''bytes'' = Inl (Exception ''UnicodeDecodeError'')"
    by simp_all
  have c': "robots_urlopen ?undecodable (urljoin site ''http://h/x'' ''/robots.txt'') = Opened ''bytes''"
    by simp
  from can_fetch_fail_open [OF miss, of site "''http://h/x''" "Exception ''timed out''"] a
  have 1: "fst (can_fetch site init ''http://h/x'')" by blast
  from can_fetch_fail_open [OF miss, of "site_http 404" "''http://h/x''" _ _ 404] b
  have 2: "fst (can_fetch (site_http 404) init ''http://h/x'')" by simp
  from can_fetch_fail_open [OF miss, of ?undecodable "''http://h/x''" "Exception ''UnicodeDecodeError''" "''bytes''"] c
  have 3: "fst (can_fetch ?undecodable init ''http://h/x'')" by blast
  show ?thesis
    by (intro conjI) (rule miss a b c' 1 2 3)+
qed

text \<open>
  When the request for robots.txt is answered with the status 503 or 403,
  \<open>read()\<close> returns, the parser is cached and \<open>_can_fetch\<close> returns \<open>False\<close>: the
  robots.txt cannot be retrieved, and the URL is blocked.
\<close>

theorem can_fetch_fail_open_counterexample:
  "respect_robots_txt (init :: unit robot_file_parser crawler) \<and>
   robots_urlopen (site_http 503) (urljoin (site_http 503) ''http://h/x'' ''/robots.txt'') =
     HTTPError 503 \<and>
   \<not> fst (can_fetch (site_http 503) init ''http://h/x'') \<and>
   robots_urlopen (site_http 403) (urljoin (site_http 403) ''http://h/x'' ''/robots.txt'') =
     HTTPError 403 \<and>
   \<not> fst (can_fetch (site_http 403) init ''http://h/x'')"
  by (simp add: can_fetch_def get_robot_parser_def RobotFileParser_read_def
        RobotFileParser_can_fetch_def RobotFileParser_init_def site_http_def site_def init_def Let_def)

section \<open>Scoping of extract\_links\<close>

lemma links_loop_Inl [simp]: "links_loop env base_url pats hrefs (Inl e, self) = (Inl e, self)"
  by (cases hrefs) simp_all

lemma links_loop_Inr:
  "links_loop env base_url pats (href # hrefs) (Inr links, self) =
     links_loop env base_url pats hrefs (anchor_step env base_url pats href links self)"
  by simp












end
